theory Spec2Isabelle
  imports Main "HOL-Library.AList" "HOL-Library.Sublist"
begin

section \<open>JavaScript values used by the program\<close>

text \<open>
  A JavaScript \<open>Map\<close> iterates in insertion order, and \<open>set\<close> on a key that is already
  present keeps the key's position. It is modelled as an association list:
  \<open>Map_get\<close> is \<open>Map.prototype.get\<close> (\<open>None\<close> for \<open>undefined\<close>), \<open>Map_set\<close> is
  \<open>Map.prototype.set\<close>, \<open>Map_values\<close> is the iteration order of \<open>values()\<close> and of
  \<open>forEach\<close>, \<open>Map_size\<close> is \<open>size\<close>.
\<close>

type_synonym ('k, 'v) Map = "('k \<times> 'v) list"

definition Map_get :: "('k, 'v) Map \<Rightarrow> 'k \<Rightarrow> 'v option" where
  "Map_get m k = map_of m k"

definition Map_set :: "'k \<Rightarrow> 'v \<Rightarrow> ('k, 'v) Map \<Rightarrow> ('k, 'v) Map" where
  "Map_set k v m = AList.update k v m"

definition Map_values :: "('k, 'v) Map \<Rightarrow> 'v list" where
  "Map_values m = map snd m"

definition Map_size :: "('k, 'v) Map \<Rightarrow> nat" where
  "Map_size m = length m"

text \<open>
  A thrown JavaScript \<open>Error\<close> object, by its \<open>name\<close> and \<open>message\<close>. The program has no
  \<open>throw\<close> of its own: the only exceptions are the engine's \<open>TypeError\<close> for a property
  read on \<open>undefined\<close> (the message is V8's).
\<close>

datatype error = Error (name: string) (message: string)

definition TypeError_undefined :: "string \<Rightarrow> error" where
  "TypeError_undefined prop =
     Error ''TypeError''
       (''Cannot read property '' @ [CHR 0x27] @ prop @ [CHR 0x27] @ '' of undefined'')"

text \<open>The records of the log parser (package \<open>modsec-log-parse\<close>), by the fields the program reads.\<close>

record IRuleError =
  e_id :: string
  e_msg :: string
  e_hostname :: string
  e_ip :: string
  e_data :: string
  e_date :: string

record INormalLog =
  n_ip :: string
  n_date :: string
  n_statusCode :: string
  n_method :: string
  n_uri :: string
  n_useragent :: string

section \<open>FPFilter: grouping rule errors by rule id\<close>

text \<open>Class \<open>IP\<close> of FPFilter: one entry per IP address of a rule group.\<close>

record IP =
  ip_hits :: nat
  ip_dataUsed :: "string list"
  ip_ip :: string

definition IP_new :: "IRuleError \<Rightarrow> IP" where
  "IP_new ruleError = \<lparr>ip_hits = 1, ip_dataUsed = [e_data ruleError], ip_ip = e_ip ruleError\<rparr>"

definition IP_collect :: "IP \<Rightarrow> IRuleError \<Rightarrow> IP" where
  "IP_collect this ruleError =
     this\<lparr>ip_dataUsed := ip_dataUsed this @ [e_data ruleError], ip_hits := ip_hits this + 1\<rparr>"

text \<open>Class \<open>Data\<close> of FPFilter: one entry per payload of a rule group.\<close>

record Data =
  d_ipList :: "string list"
  d_hits :: nat
  d_date :: string
  d_data :: string

definition Data_new :: "IRuleError \<Rightarrow> Data" where
  "Data_new ruleError =
     \<lparr>d_ipList = [e_ip ruleError], d_hits = 1, d_date = e_date ruleError, d_data = e_data ruleError\<rparr>"

definition Data_collect :: "Data \<Rightarrow> IRuleError \<Rightarrow> Data" where
  "Data_collect this ruleError =
     this\<lparr>d_ipList := d_ipList this @ [e_ip ruleError], d_hits := d_hits this + 1\<rparr>"

text \<open>Class \<open>OrganizedError\<close>: one rule group. The constructor sets \<open>hits\<close> to 1 and then
  calls \<open>collect\<close>, which increments it.\<close>

record OrganizedError =
  oe_msg :: string
  oe_id :: string
  oe_hits :: nat
  oe_ipList :: "(string, IP) Map"
  oe_dataUsed :: "(string, Data) Map"

definition OrganizedError_collect :: "OrganizedError \<Rightarrow> IRuleError \<Rightarrow> OrganizedError" where
  "OrganizedError_collect this ruleError =
     (let savedIP = Map_get (oe_ipList this) (e_ip ruleError);
          savedData = Map_get (oe_dataUsed this) (e_data ruleError);
          ipList' = (case savedIP of
              Some s \<Rightarrow> Map_set (e_ip ruleError) (IP_collect s ruleError) (oe_ipList this)
            | None \<Rightarrow> Map_set (e_ip ruleError) (IP_new ruleError) (oe_ipList this));
          dataUsed' = (case savedData of
              Some s \<Rightarrow> Map_set (e_data ruleError) (Data_collect s ruleError) (oe_dataUsed this)
            | None \<Rightarrow> Map_set (e_data ruleError) (Data_new ruleError) (oe_dataUsed this))
      in this\<lparr>oe_ipList := ipList', oe_dataUsed := dataUsed', oe_hits := oe_hits this + 1\<rparr>)"

definition OrganizedError_new :: "IRuleError \<Rightarrow> OrganizedError" where
  "OrganizedError_new ruleError =
     OrganizedError_collect
       \<lparr>oe_msg = e_msg ruleError, oe_id = e_id ruleError, oe_hits = 1,
        oe_ipList = [], oe_dataUsed = []\<rparr> ruleError"

text \<open>Class \<open>FPFilter\<close>. The constructor reads \<open>ruleErrors[0].hostname\<close> first, which throws
  on an empty array, and then folds the records into the map \<open>errors\<close>.\<close>

record FPFilter =
  fp_hostname :: string
  fp_errors :: "(string, OrganizedError) Map"

definition FPFilter_step ::
  "(string, OrganizedError) Map \<Rightarrow> IRuleError \<Rightarrow> (string, OrganizedError) Map" where
  "FPFilter_step errs ruleError =
     (case Map_get errs (e_id ruleError) of
        Some ruleBroken \<Rightarrow>
          Map_set (e_id ruleError) (OrganizedError_collect ruleBroken ruleError) errs
      | None \<Rightarrow> Map_set (e_id ruleError) (OrganizedError_new ruleError) errs)"

definition FPFilter_new :: "IRuleError list \<Rightarrow> error + FPFilter" where
  "FPFilter_new ruleErrors =
     (case ruleErrors of
        [] \<Rightarrow> Inl (TypeError_undefined ''hostname'')
      | first # _ \<Rightarrow>
          Inr \<lparr>fp_hostname = e_hostname first, fp_errors = foldl FPFilter_step [] ruleErrors\<rparr>)"

section \<open>FPReviewer: the false-positive report\<close>

text \<open>
  \<open>Array.prototype.sort\<close> with a comparator. The sort is stable (ECMAScript 2019), and V8's
  implementation moves an element in front of another one only when the comparator
  returns a negative number for the pair. It is modelled as an insertion sort with that
  test, inserting the elements front to back. A comparator returns a JavaScript number,
  here an \<open>int\<close>.
\<close>

fun insert_sorted :: "('a \<Rightarrow> 'a \<Rightarrow> int) \<Rightarrow> 'a \<Rightarrow> 'a list \<Rightarrow> 'a list" where
  "insert_sorted comparefn x [] = [x]"
| "insert_sorted comparefn x (y # ys) =
     (if comparefn x y < 0 then x # y # ys else y # insert_sorted comparefn x ys)"

definition Array_sort :: "('a \<Rightarrow> 'a \<Rightarrow> int) \<Rightarrow> 'a list \<Rightarrow> 'a list" where
  "Array_sort comparefn xs = foldl (\<lambda>sorted x. insert_sorted comparefn x sorted) [] xs"

text \<open>
  Both breakdowns render an element of the sorted array only under the guard
  \<open>sorted.indexOf(x) <= 9\<close>. The elements are distinct objects, so \<open>indexOf\<close> is the
  element's position.
\<close>

definition index_le_9 :: "'a list \<Rightarrow> 'a list" where
  "index_le_9 xs = map snd (filter (\<lambda>(i, x). i \<le> 9) (enumerate 0 xs))"

text \<open>\<open>Number.prototype.toString\<close> on a count, and \<open>FPReviewer.fixWhiteSpace\<close>.\<close>

fun toString :: "nat \<Rightarrow> string" where
  "toString n =
     (if n < 10 then [char_of (48 + n)] else toString (n div 10) @ [char_of (48 + n mod 10)])"

declare toString.simps [simp del]

definition fixWhiteSpace :: "string \<Rightarrow> nat \<Rightarrow> string" where
  "fixWhiteSpace data len =
     (if length data < len then data @ replicate (len - length data) CHR '' '' else data)"

text \<open>
  \<open>reviewIP\<close>: the IP entries of a group, sorted by \<open>x.hits - y.hits\<close> and then reversed.
  \<open>reviewIP_rows\<close> are the entries that get a line, in the order of their lines;
  \<open>lookupCollection\<close> is \<open>None\<close> when lookups are turned off.
\<close>

definition reviewIP_sorted :: "OrganizedError \<Rightarrow> IP list" where
  "reviewIP_sorted ruleError =
     rev (Array_sort (\<lambda>x y. int (ip_hits x) - int (ip_hits y)) (Map_values (oe_ipList ruleError)))"

definition reviewIP_rows :: "OrganizedError \<Rightarrow> IP list" where
  "reviewIP_rows ruleError = index_le_9 (reviewIP_sorted ruleError)"

definition reviewIP_row :: "(string, string) Map option \<Rightarrow> IP \<Rightarrow> string" where
  "reviewIP_row lookupCollection ip =
     (let hostname = (case lookupCollection of
                        Some c \<Rightarrow> Map_get c (ip_ip ip)
                      | None \<Rightarrow> Some ''no-lookup'')
      in [CHR 0x09] @ '' - '' @ toString (ip_hits ip) @ '' - '' @ fixWhiteSpace (ip_ip ip) 15
         @ [CHR 0x09] @ ''[''
         @ (case hostname of Some h \<Rightarrow> (if h \<noteq> [] then h else ''null'') | None \<Rightarrow> ''null'')
         @ '']\<newline>'')"

definition reviewIP :: "(string, string) Map option \<Rightarrow> OrganizedError \<Rightarrow> string" where
  "reviewIP lookupCollection ruleError =
     '' - IP Addresses (''
     @ (if Map_size (oe_ipList ruleError) \<ge> 10
        then ''Top 10 of '' @ toString (Map_size (oe_ipList ruleError))
        else toString (Map_size (oe_ipList ruleError)))
     @ '')\<newline>''
     @ concat (map (reviewIP_row lookupCollection) (reviewIP_rows ruleError))"

text \<open>
  \<open>reviewDataSent\<close>: the payload entries of a group, sorted by the comparator
  \<open>x.hits < y.hits ? -1 : 1\<close>, which never returns 0.
\<close>

definition reviewDataSent_sorted :: "OrganizedError \<Rightarrow> Data list" where
  "reviewDataSent_sorted ruleError =
     Array_sort (\<lambda>x y. if d_hits x < d_hits y then - 1 else 1) (Map_values (oe_dataUsed ruleError))"

definition reviewDataSent_rows :: "OrganizedError \<Rightarrow> Data list" where
  "reviewDataSent_rows ruleError = index_le_9 (reviewDataSent_sorted ruleError)"

definition reviewDataSent :: "OrganizedError \<Rightarrow> string" where
  "reviewDataSent ruleError =
     '' - Data Match (''
     @ (if Map_size (oe_dataUsed ruleError) \<ge> 9
        then ''10/'' @ toString (Map_size (oe_dataUsed ruleError))
        else toString (Map_size (oe_dataUsed ruleError)))
     @ '')\<newline>''
     @ concat (map (\<lambda>data. [CHR 0x09] @ '' - '' @ toString (d_hits data) @ '' - '' @ d_data data
                            @ ''\<newline>'')
                 (reviewDataSent_rows ruleError))
     @ ''\<newline>''"

text \<open>
  \<open>FPReviewer.getOverview\<close> and \<open>FPReviewer.getBreakdown\<close>. Both start their output with
  a header line that names the host and append to it per rule group. The overview's row
  of a group is built from the group's fields by \<open>String.prototype.replace\<close> on a
  template; it is the parameter \<open>row\<close> here. \<open>lookupCollection\<close> is the awaited result of
  \<open>recursiveLookup\<close>, \<open>None\<close> when lookups are turned off.
\<close>

definition getOverview :: "(OrganizedError \<Rightarrow> string) \<Rightarrow> FPFilter \<Rightarrow> string" where
  "getOverview row filtered =
     ''Reviewing ModSec logs for '' @ fp_hostname filtered @ ''\<newline>''
     @ ''IPs'' @ [CHR 0x09] @ ''Hits'' @ [CHR 0x09] @ ''Rule  '' @ [CHR 0x09] @ ''Message\<newline>''
     @ concat (map row (Map_values (fp_errors filtered)))"

definition FP_getBreakdown :: "(string, string) Map option \<Rightarrow> FPFilter \<Rightarrow> string" where
  "FP_getBreakdown lookupCollection filtered =
     ''Reviewing detailed breakdown for '' @ fp_hostname filtered @ ''\<newline>''
     @ concat (map (\<lambda>ruleBroken.
                 oe_id ruleBroken @ '' Breakdown - '' @ oe_msg ruleBroken @ ''\<newline>''
                 @ reviewIP lookupCollection ruleBroken
                 @ reviewDataSent ruleBroken)
               (Map_values (fp_errors filtered)))"

section \<open>nsLookup: the reverse-lookup cache\<close>

text \<open>
  The values the cache holds and a lookup resolves with: a hostname, \<open>null\<close> or
  \<open>undefined\<close>. A promise is described by the state it ends in: still pending (it never
  settles), fulfilled with a value, or rejected with a reason.
\<close>

datatype jsval = Undefined | Null | Str string

datatype ('e, 'a) promise = Pending | Fulfilled 'a | Rejected 'e

text \<open>
  What \<open>dns.reverse\<close> passes to its callback \<open>(err, hostname)\<close>: an error; no error and
  an array of hostnames (possibly empty); or no error and no array.
\<close>

datatype dns_reply = Reply_err | Reply_hostnames "string list" | Reply_none

text \<open>
  One call of \<open>nsLookup\<close>, from the cache \<open>collected\<close> at the call and the reply of the
  resolver: the promise it returns, the cache after the callback has run, and whether
  \<open>dns.reverse\<close> was called. The cached value is used when \<open>result != undefined\<close>, a
  loose comparison, which is false for \<open>null\<close> as well as for \<open>undefined\<close>. An array is
  truthy even when it is empty, and then \<open>hostname[0]\<close> is \<open>undefined\<close>.
\<close>

record lookup =
  lk_promise :: "(jsval, jsval) promise"
  lk_collected :: "(string, jsval) Map"
  lk_reverse_called :: bool

definition nsLookup :: "(string, jsval) Map \<Rightarrow> (string \<Rightarrow> dns_reply) \<Rightarrow> string \<Rightarrow> lookup" where
  "nsLookup collected reverse ip =
     (let result = (case Map_get collected ip of None \<Rightarrow> Undefined | Some v \<Rightarrow> v)
      in if result \<noteq> Undefined \<and> result \<noteq> Null
         then \<lparr>lk_promise = Fulfilled result, lk_collected = collected,
               lk_reverse_called = False\<rparr>
         else (case reverse ip of
                 Reply_err \<Rightarrow>
                   \<lparr>lk_promise = Rejected Null, lk_collected = Map_set ip Null collected,
                    lk_reverse_called = True\<rparr>
               | Reply_hostnames hostname \<Rightarrow>
                   (let h0 = (case hostname of [] \<Rightarrow> Undefined | h # _ \<Rightarrow> Str h)
                    in \<lparr>lk_promise = Fulfilled h0, lk_collected = Map_set ip h0 collected,
                        lk_reverse_called = True\<rparr>)
               | Reply_none \<Rightarrow>
                   \<lparr>lk_promise = Pending, lk_collected = collected,
                    lk_reverse_called = True\<rparr>))"

text \<open>
  \<open>Promise.all\<close> is fulfilled when every promise is, rejected when one is (with the reason
  of the first rejected one of the list) and pending otherwise. \<open>Promise_then\<close> is \<open>then\<close>
  with a fulfilment handler only: a rejection passes through, the handler does not run.
\<close>

fun Promise_all :: "('e, 'a) promise list \<Rightarrow> ('e, 'a list) promise" where
  "Promise_all [] = Fulfilled []"
| "Promise_all (Rejected r # ps) = Rejected r"
| "Promise_all (Pending # ps) =
     (case Promise_all ps of Rejected r \<Rightarrow> Rejected r | _ \<Rightarrow> Pending)"
| "Promise_all (Fulfilled v # ps) =
     (case Promise_all ps of
        Fulfilled vs \<Rightarrow> Fulfilled (v # vs)
      | Rejected r \<Rightarrow> Rejected r
      | Pending \<Rightarrow> Pending)"

definition Promise_then :: "('e, 'a) promise \<Rightarrow> ('a \<Rightarrow> 'b) \<Rightarrow> ('e, 'b) promise" where
  "Promise_then p onFulfilled =
     (case p of
        Fulfilled v \<Rightarrow> Fulfilled (onFulfilled v)
      | Rejected r \<Rightarrow> Rejected r
      | Pending \<Rightarrow> Pending)"

text \<open>String concatenation \<open>'' + v\<close> of a looked-up value.\<close>

definition String_of :: "jsval \<Rightarrow> string" where
  "String_of v = (case v of Str s \<Rightarrow> s | Null \<Rightarrow> ''null'' | Undefined \<Rightarrow> ''undefined'')"

section \<open>LogFilter: activity per IP and per rule\<close>

text \<open>The type \<open>IP\<close> of LogFilter (named \<open>LogIP\<close> here, FPFilter has a class \<open>IP\<close> too).\<close>

record LogIP =
  p_brokenRules :: "IRuleError list"
  p_allActivities :: "INormalLog list"
  p_ip :: string
  p_rejectedRequests :: "INormalLog list"
  p_useragent :: string
  p_nsLookup :: string

text \<open>
  \<open>gatherIPs\<close>. The \<open>forEach\<close> over the rule errors runs synchronously: it fills the map
  \<open>ips\<close> and, when lookups are on, calls \<open>nsLookup\<close> once for each new IP
  (\<open>gatherIPs_step\<close>; the second component lists these IPs in call order). The callbacks
  of \<open>dns.reverse\<close> run later, so every one of these calls reads the cache as it was
  before \<open>gatherIPs\<close>. A fulfilled lookup appends its value to the entry's \<open>nsLookup\<close>
  (\<open>gatherIPs_resolved\<close>). The promise that \<open>gatherIPs\<close> returns is resolved only in
  \<open>Promise.all(lookups).then(() => resolve(ips))\<close>: there is no rejection handler and the
  executor's \<open>reject\<close> is not used, so it is fulfilled when every lookup is fulfilled
  and stays pending otherwise.
\<close>

definition gatherIPs_step ::
  "bool \<Rightarrow> (string, LogIP) Map \<times> string list \<Rightarrow> IRuleError \<Rightarrow> (string, LogIP) Map \<times> string list" where
  "gatherIPs_step doNSLookup st ruleError =
     (case st of (ips, lookups) \<Rightarrow>
        (case Map_get ips (e_ip ruleError) of
           Some ip \<Rightarrow>
             (Map_set (e_ip ruleError) (ip\<lparr>p_brokenRules := p_brokenRules ip @ [ruleError]\<rparr>) ips,
              lookups)
         | None \<Rightarrow>
             (let newIP = \<lparr>p_brokenRules = [ruleError], p_allActivities = [],
                           p_ip = e_ip ruleError, p_rejectedRequests = [],
                           p_useragent = [], p_nsLookup = []\<rparr>
              in if doNSLookup
                 then (Map_set (e_ip ruleError) newIP ips, lookups @ [e_ip ruleError])
                 else (Map_set (e_ip ruleError)
                         (newIP\<lparr>p_nsLookup := p_nsLookup newIP @ ''no-lookup''\<rparr>) ips,
                       lookups))))"

definition gatherIPs_resolved ::
  "(string, LogIP) Map \<Rightarrow> string \<times> jsval \<Rightarrow> (string, LogIP) Map" where
  "gatherIPs_resolved ips r =
     (case r of (ip, hostname) \<Rightarrow>
        (case Map_get ips ip of
           Some newIP \<Rightarrow>
             Map_set ip (newIP\<lparr>p_nsLookup := p_nsLookup newIP @ String_of hostname\<rparr>) ips
         | None \<Rightarrow> ips))"

definition gatherIPs ::
  "(string, jsval) Map \<Rightarrow> (string \<Rightarrow> dns_reply) \<Rightarrow> bool \<Rightarrow> IRuleError list
     \<Rightarrow> (jsval, (string, LogIP) Map) promise" where
  "gatherIPs collected reverse doNSLookup ruleErrors =
     (case foldl (gatherIPs_step doNSLookup) ([], []) ruleErrors of (ips, lookups) \<Rightarrow>
        (case Promise_all (map (\<lambda>ip. lk_promise (nsLookup collected reverse ip)) lookups) of
           Fulfilled hostnames \<Rightarrow> Fulfilled (foldl gatherIPs_resolved ips (zip lookups hostnames))
         | Rejected r \<Rightarrow> Pending
         | Pending \<Rightarrow> Pending))"

definition filterNormalLogs_step :: "(string, LogIP) Map \<Rightarrow> INormalLog \<Rightarrow> (string, LogIP) Map" where
  "filterNormalLogs_step ips normalLog =
     (case Map_get ips (n_ip normalLog) of
        Some ip \<Rightarrow>
          (let ip1 = (if n_statusCode normalLog \<noteq> ''200''
                      then ip\<lparr>p_rejectedRequests := p_rejectedRequests ip @ [normalLog]\<rparr>
                      else ip);
               ip2 = (if length (p_useragent ip1) = 0
                      then ip1\<lparr>p_useragent := n_useragent normalLog\<rparr>
                      else ip1);
               ip3 = ip2\<lparr>p_allActivities := p_allActivities ip2 @ [normalLog]\<rparr>
           in Map_set (n_ip normalLog) ip3 ips)
      | None \<Rightarrow> ips)"

definition filterNormalLogs :: "INormalLog list \<Rightarrow> (string, LogIP) Map \<Rightarrow> (string, LogIP) Map" where
  "filterNormalLogs normalLogs ips = foldl filterNormalLogs_step ips normalLogs"

text \<open>\<open>RuleErrorCollection\<close>: the first rule error of a rule id (\<open>...ruleError\<close>) and the
  IP entries that broke the rule.\<close>

record RuleErrorCollection =
  c_ruleError :: IRuleError
  c_ips :: "LogIP list"

definition filterErrorLogs_step ::
  "(string, LogIP) Map \<Rightarrow> (string, RuleErrorCollection) Map \<Rightarrow> IRuleError
     \<Rightarrow> (string, RuleErrorCollection) Map" where
  "filterErrorLogs_step ips errs ruleError =
     (case (Map_get errs (e_id ruleError), Map_get ips (e_ip ruleError)) of
        (Some recordedError, Some recordedIP) \<Rightarrow>
          (case find (\<lambda>x. p_ip x = p_ip recordedIP) (c_ips recordedError) of
             None \<Rightarrow>
               Map_set (e_id ruleError)
                 (recordedError\<lparr>c_ips := c_ips recordedError @ [recordedIP]\<rparr>) errs
           | Some collectedIP \<Rightarrow> errs)
      | (None, Some recordedIP) \<Rightarrow>
          Map_set (e_id ruleError) \<lparr>c_ruleError = ruleError, c_ips = [recordedIP]\<rparr> errs
      | (_, None) \<Rightarrow> errs)"

definition filterErrorLogs ::
  "IRuleError list \<Rightarrow> (string, LogIP) Map \<Rightarrow> (string, RuleErrorCollection) Map" where
  "filterErrorLogs ruleErrors ips = foldl (filterErrorLogs_step ips) [] ruleErrors"

text \<open>\<open>LogFilter.filter\<close> awaits \<open>gatherIPs\<close> and resolves with the regrouped map.\<close>

definition LogFilter_filter ::
  "(string, jsval) Map \<Rightarrow> (string \<Rightarrow> dns_reply) \<Rightarrow> INormalLog list \<Rightarrow> IRuleError list \<Rightarrow> bool
     \<Rightarrow> (jsval, (string, RuleErrorCollection) Map) promise" where
  "LogFilter_filter collected reverse normalLogs ruleErrors doNSLookup =
     Promise_then (gatherIPs collected reverse doNSLookup ruleErrors)
       (\<lambda>ips. filterErrorLogs ruleErrors (filterNormalLogs normalLogs ips))"

section \<open>EntireLogReviewer: the activity report\<close>

text \<open>
  \<open>String.prototype.split\<close> with a one-character separator, and
  \<open>String.prototype.replace\<close> of the first occurrence of a character.
\<close>

fun String_split :: "char \<Rightarrow> string \<Rightarrow> string list" where
  "String_split sep [] = [[]]"
| "String_split sep (c # cs) =
     (if c = sep then [] # String_split sep cs
      else (case String_split sep cs of [] \<Rightarrow> [[c]] | part # parts \<Rightarrow> (c # part) # parts))"

fun String_replace :: "char \<Rightarrow> char \<Rightarrow> string \<Rightarrow> string" where
  "String_replace pat rep [] = []"
| "String_replace pat rep (c # cs) = (if c = pat then rep # cs else c # String_replace pat rep cs)"

text \<open>
  \<open>fixDate\<close> builds the string that it passes to \<open>new Date\<close>. When the date has fewer
  than three parts between slashes, \<open>selected[2]\<close> is \<open>undefined\<close> and the call of
  \<open>replace\<close> on it throws.
\<close>

definition fixDate :: "string \<Rightarrow> error + string" where
  "fixDate date =
     (let selected = String_split CHR ''/'' date
      in if length selected < 3 then Inl (TypeError_undefined ''replace'')
         else Inr (selected ! 1 @ ''/'' @ selected ! 0 @ ''/''
                   @ hd (String_split CHR ''+'' (String_replace CHR '':'' CHR '' '' (selected ! 2)))))"

text \<open>
  A \<open>Date\<close> is used through its time value only: \<open>Some t\<close> for \<open>t\<close> milliseconds, \<open>None\<close>
  for an invalid date (\<open>NaN\<close>). The parser of \<open>new Date(string)\<close> belongs to the engine and
  is the parameter \<open>newDate\<close>. The variables \<open>first\<close> and \<open>last\<close> of \<open>getBreakdown\<close> are
  \<open>undefined\<close> until assigned, which a comparison converts to \<open>NaN\<close> as well, so they are
  \<open>None\<close> then. \<open>Date_le a b\<close> is \<open>a <= b\<close> (and \<open>b >= a\<close>): false when a side is \<open>NaN\<close>.
\<close>

definition Date_le :: "int option \<Rightarrow> int option \<Rightarrow> bool" where
  "Date_le a b = (case (a, b) of (Some x, Some y) \<Rightarrow> x \<le> y | _ \<Rightarrow> False)"

text \<open>
  \<open>getBreakdown\<close>, first loop: over the broken rules of the IP with the given rule id.
  The state is \<open>first\<close>, \<open>last\<close>, the rule errors that got a line in \<open>top10Data\<close>, and \<open>i\<close>.
\<close>

record rules_loop =
  l_first :: "int option"
  l_last :: "int option"
  l_top10Data :: "IRuleError list"
  l_i :: nat

definition rules_loop_step :: "(string \<Rightarrow> int option) \<Rightarrow> rules_loop \<Rightarrow> IRuleError \<Rightarrow> rules_loop" where
  "rules_loop_step newDate st ruleError =
     (let date = newDate (e_date ruleError)
      in \<lparr>l_first = (if l_i st = 0 then date else l_first st),
          l_last = date,
          l_top10Data = (if l_i st \<le> 9 then l_top10Data st @ [ruleError] else l_top10Data st),
          l_i = l_i st + 1\<rparr>)"

text \<open>
  Second loop: over the rejected requests of the IP; a request gets a line when
  \<open>date <= last && date >= first\<close> (\<open>dfirst\<close> and \<open>dlast\<close> here). An exception of \<open>fixDate\<close> ends the loop.
\<close>

fun rejects_loop ::
  "(string \<Rightarrow> int option) \<Rightarrow> int option \<Rightarrow> int option \<Rightarrow> INormalLog list \<Rightarrow> error + INormalLog list" where
  "rejects_loop newDate dfirst dlast [] = Inr []"
| "rejects_loop newDate dfirst dlast (rejected # rest) =
     (case fixDate (n_date rejected) of
        Inl e \<Rightarrow> Inl e
      | Inr s \<Rightarrow>
          (let date = newDate s
           in case rejects_loop newDate dfirst dlast rest of
                Inl e \<Rightarrow> Inl e
              | Inr rows \<Rightarrow>
                  Inr (if Date_le date dlast \<and> Date_le dfirst date then rejected # rows else rows)))"

text \<open>
  The breakdown of an IP for a rule id. The text has one line per row, with the time of
  day of the row's date; the model keeps the rows: the rule errors listed under
  \<open>Top 10 most used data\<close> and the requests listed under \<open>Rejected requests\<close>.
\<close>

record breakdown =
  b_top10Data :: "IRuleError list"
  b_rejects :: "INormalLog list"

definition getBreakdown :: "(string \<Rightarrow> int option) \<Rightarrow> LogIP \<Rightarrow> string \<Rightarrow> error + breakdown" where
  "getBreakdown newDate ip rid =
     (let st = foldl (rules_loop_step newDate)
                 \<lparr>l_first = None, l_last = None, l_top10Data = [], l_i = 0\<rparr>
                 (filter (\<lambda>x. e_id x = rid) (p_brokenRules ip))
      in case rejects_loop newDate (l_first st) (l_last st) (p_rejectedRequests ip) of
           Inl e \<Rightarrow> Inl e
         | Inr rows \<Rightarrow> Inr \<lparr>b_top10Data = l_top10Data st, b_rejects = rows\<rparr>)"

definition getHeader :: "LogIP \<Rightarrow> string" where
  "getHeader ip =
     p_ip ip @ [CHR 0x27] @ ''s activity\<newline> - nslookup: '' @ p_nsLookup ip
     @ ''\<newline> - user-agent: '' @ p_useragent ip @ ''\<newline>''"

text \<open>
  \<open>getReview\<close> awaits \<open>LogFilter.filter\<close> and then writes, per rule id of the filtered map
  and per IP of the rule, the header and the breakdown. The report is kept by its parts:
  per rule the line \<open>[n] id - msg\<close>, and per IP the header text and the breakdown rows.
  An exception of \<open>getBreakdown\<close> rejects the promise.
\<close>

fun sequence :: "('e + 'a) list \<Rightarrow> 'e + 'a list" where
  "sequence [] = Inr []"
| "sequence (Inl e # rs) = Inl e"
| "sequence (Inr x # rs) = (case sequence rs of Inl e \<Rightarrow> Inl e | Inr xs \<Rightarrow> Inr (x # xs))"

record rule_section =
  s_line :: string
  s_ips :: "(string \<times> breakdown) list"

definition review_ip :: "(string \<Rightarrow> int option) \<Rightarrow> string \<Rightarrow> LogIP \<Rightarrow> error + string \<times> breakdown" where
  "review_ip newDate ruleID ip =
     (case getBreakdown newDate ip ruleID of
        Inl e \<Rightarrow> Inl e
      | Inr b \<Rightarrow> Inr (getHeader ip, b))"

definition review_rule ::
  "(string \<Rightarrow> int option) \<Rightarrow> string \<times> RuleErrorCollection \<Rightarrow> error + rule_section" where
  "review_rule newDate entry =
     (case entry of (ruleID, ruleError) \<Rightarrow>
        (case sequence (map (review_ip newDate ruleID) (c_ips ruleError)) of
           Inl e \<Rightarrow> Inl e
         | Inr rows \<Rightarrow>
             Inr \<lparr>s_line = ''['' @ toString (length (c_ips ruleError)) @ ''] '' @ ruleID @ '' - ''
                            @ e_msg (c_ruleError ruleError) @ ''\<newline>'',
                  s_ips = rows\<rparr>))"

definition getReview ::
  "(string \<Rightarrow> int option) \<Rightarrow> (string, jsval) Map \<Rightarrow> (string \<Rightarrow> dns_reply) \<Rightarrow> INormalLog list
     \<Rightarrow> IRuleError list \<Rightarrow> bool \<Rightarrow> (jsval + error, rule_section list) promise" where
  "getReview newDate collected reverse normalLogs ruleErrors doNSLookup =
     (case LogFilter_filter collected reverse normalLogs ruleErrors doNSLookup of
        Fulfilled filtered \<Rightarrow>
          (case sequence (map (review_rule newDate) filtered) of
             Inl e \<Rightarrow> Rejected (Inr e)
           | Inr sections \<Rightarrow> Fulfilled sections)
      | Rejected r \<Rightarrow> Rejected (Inl r)
      | Pending \<Rightarrow> Pending)"

section \<open>Hit counts of the rule groups\<close>

lemma update_sum_Some:
  "map_of m k = Some old \<Longrightarrow>
     sum_list (map (\<lambda>p. f (snd p)) (AList.update k v m)) + f old
       = sum_list (map (\<lambda>p. f (snd p)) m) + (f v :: nat)"
  by (induction m) (auto split: if_splits)

lemma update_sum_None:
  "map_of m k = None \<Longrightarrow>
     sum_list (map (\<lambda>p. f (snd p)) (AList.update k v m))
       = sum_list (map (\<lambda>p. f (snd p)) m) + (f v :: nat)"
  by (induction m) (auto split: if_splits)

lemma update_length_Some: "map_of m k = Some old \<Longrightarrow> length (AList.update k v m) = length m"
  by (induction m) (auto split: if_splits)

lemma update_length_None: "map_of m k = None \<Longrightarrow> length (AList.update k v m) = length m + 1"
  by (induction m) (auto split: if_splits)

lemma OrganizedError_collect_hits: "oe_hits (OrganizedError_collect g e) = oe_hits g + 1"
  by (simp add: OrganizedError_collect_def Let_def)

lemma OrganizedError_new_hits: "oe_hits (OrganizedError_new e) = 2"
  by (simp add: OrganizedError_new_def OrganizedError_collect_hits)

lemma FPFilter_step_hits:
  "sum_list (map (\<lambda>p. oe_hits (snd p)) (FPFilter_step errs e)) + length errs
     = sum_list (map (\<lambda>p. oe_hits (snd p)) errs) + 1 + length (FPFilter_step errs e)"
proof (cases "map_of errs (e_id e)")
  case None
  then show ?thesis
    using update_sum_None [of errs "e_id e" oe_hits "OrganizedError_new e"]
      update_length_None [of errs "e_id e" "OrganizedError_new e"]
    by (simp add: FPFilter_step_def Map_get_def Map_set_def OrganizedError_new_hits)
next
  case (Some g)
  then show ?thesis
    using update_sum_Some [of errs "e_id e" g oe_hits "OrganizedError_collect g e"]
      update_length_Some [of errs "e_id e" g "OrganizedError_collect g e"]
    by (simp add: FPFilter_step_def Map_get_def Map_set_def OrganizedError_collect_hits)
qed

lemma FPFilter_fold_hits:
  "sum_list (map (\<lambda>p. oe_hits (snd p)) (foldl FPFilter_step errs es)) + length errs
     = sum_list (map (\<lambda>p. oe_hits (snd p)) errs) + length es + length (foldl FPFilter_step errs es)"
proof (induction es arbitrary: errs)
  case Nil
  show ?case by simp
next
  case (Cons e es)
  show ?case
    using Cons.IH [of "FPFilter_step errs e"] FPFilter_step_hits [of errs e]
    by simp
qed

text \<open>
  Over all groups the hit counts add up to the number of records plus the number of
  groups: the constructor of \<open>OrganizedError\<close> counts the group's first record twice.
\<close>

lemma FPFilter_hits_total:
  assumes "FPFilter_new ruleErrors = Inr f"
  shows "sum_list (map oe_hits (Map_values (fp_errors f)))
           = length ruleErrors + Map_size (fp_errors f)"
proof -
  from assms have "fp_errors f = foldl FPFilter_step [] ruleErrors"
    by (auto simp: FPFilter_new_def split: list.splits)
  then show ?thesis
    using FPFilter_fold_hits [of "[]" ruleErrors]
    by (simp add: Map_values_def Map_size_def comp_def)
qed

text \<open>
  Claim C1 says that the hit counts of the rule groups add up to the number of input
  records. On two records with rule id 942100, IP 1.1.1.1 and the same payload, the one
  group has 3 hits, while its IP entry and its payload entry have 2 each.
\<close>

theorem C1_two_records_three_hits:
  "map_sum name
     (\<lambda>f. map (\<lambda>g. (oe_id g, oe_hits g,
                     map (\<lambda>x. (ip_ip x, ip_hits x)) (Map_values (oe_ipList g)),
                     map (\<lambda>x. (d_data x, d_hits x)) (Map_values (oe_dataUsed g))))
              (Map_values (fp_errors f)))
     (FPFilter_new
       [\<lparr>e_id = ''942100'', e_msg = ''SQL Injection'', e_hostname = ''example.com'',
         e_ip = ''1.1.1.1'', e_data = ''a OR 1=1'', e_date = ''Sun Mar 01 10:00:00 2020''\<rparr>,
        \<lparr>e_id = ''942100'', e_msg = ''SQL Injection'', e_hostname = ''example.com'',
         e_ip = ''1.1.1.1'', e_data = ''a OR 1=1'', e_date = ''Mon Mar 02 10:00:00 2020''\<rparr>])
   = Inr [(''942100'', 3, [(''1.1.1.1'', 2)], [(''a OR 1=1'', 2)])]"
  by (simp add: FPFilter_new_def FPFilter_step_def OrganizedError_new_def
      OrganizedError_collect_def Map_get_def Map_set_def Map_values_def IP_new_def
      IP_collect_def Data_new_def Data_collect_def)

section \<open>The date of a payload entry\<close>

text \<open>\<open>Data.collect\<close> does not assign \<open>date\<close>: an entry keeps the date of its first record.\<close>

lemma Data_collect_date: "d_date (Data_collect d e) = d_date d"
  by (simp add: Data_collect_def)

lemma collect_keeps_date:
  assumes "Map_get (oe_dataUsed g) k = Some d"
  shows "\<exists>d'. Map_get (oe_dataUsed (OrganizedError_collect g e)) k = Some d'
           \<and> d_date d' = d_date d"
proof (cases "k = e_data e")
  case True
  with assms show ?thesis
    by (simp add: OrganizedError_collect_def Let_def Map_get_def Map_set_def
        AList.update_conv' Data_collect_def)
next
  case False
  with assms show ?thesis
    by (simp add: OrganizedError_collect_def Let_def Map_get_def Map_set_def
        AList.update_conv' split: option.split)
qed

text \<open>
  Claim C5 says that a payload entry holds the later of the stored date and the date of
  the current record. On two records with the same rule id and payload, dated 1 March and
  2 March, the entry holds 1 March.
\<close>

theorem C5_date_stays_first_seen:
  "map_sum name
     (\<lambda>f. map (\<lambda>g. map (\<lambda>x. (d_data x, d_hits x, d_date x)) (Map_values (oe_dataUsed g)))
              (Map_values (fp_errors f)))
     (FPFilter_new
       [\<lparr>e_id = ''942100'', e_msg = ''SQL Injection'', e_hostname = ''example.com'',
         e_ip = ''1.1.1.1'', e_data = ''a OR 1=1'', e_date = ''Sun Mar 01 10:00:00 2020''\<rparr>,
        \<lparr>e_id = ''942100'', e_msg = ''SQL Injection'', e_hostname = ''example.com'',
         e_ip = ''1.1.1.1'', e_data = ''a OR 1=1'', e_date = ''Mon Mar 02 10:00:00 2020''\<rparr>])
   = Inr [[(''a OR 1=1'', 2, ''Sun Mar 01 10:00:00 2020'')]]"
  by (simp add: FPFilter_new_def FPFilter_step_def OrganizedError_new_def
      OrganizedError_collect_def Map_get_def Map_set_def Map_values_def IP_new_def
      IP_collect_def Data_new_def Data_collect_def)

section \<open>The empty input\<close>

text \<open>
  Claim C4 says that the aggregation fails with an EmptyInputError on zero records. The
  error thrown there is the engine's TypeError for reading \<open>hostname\<close> of \<open>undefined\<close>.
\<close>

theorem C4_empty_input_is_TypeError:
  "FPFilter_new [] = Inl (TypeError_undefined ''hostname'')
   \<and> name (TypeError_undefined ''hostname'') = ''TypeError''
   \<and> name (TypeError_undefined ''hostname'') \<noteq> ''EmptyInputError''"
  by (simp add: FPFilter_new_def TypeError_undefined_def)

text \<open>
  Claim C4 as amended: on zero records the constructor of \<open>FPFilter\<close> throws the TypeError
  of reading \<open>hostname\<close> of \<open>undefined\<close>, and it throws on no other input.
\<close>

theorem C4_fails_exactly_on_empty_input:
  "FPFilter_new [] = Inl (TypeError_undefined ''hostname'')
   \<and> (isl (FPFilter_new ruleErrors) \<longleftrightarrow> ruleErrors = [])"
  by (simp add: FPFilter_new_def split: list.split)

section \<open>The reverse-lookup cache\<close>

text \<open>A rejected lookup stores \<open>null\<close> for the IP, and the next lookup of the IP calls
  \<open>dns.reverse\<close> again, whatever the cache held before.\<close>

lemma nsLookup_failure_not_cached:
  assumes "lk_promise (nsLookup collected reverse ip) = Rejected r"
  shows "Map_get (lk_collected (nsLookup collected reverse ip)) ip = Some Null
    \<and> lk_reverse_called (nsLookup (lk_collected (nsLookup collected reverse ip)) reverse' ip)"
proof -
  from assms have c: "lk_collected (nsLookup collected reverse ip) = Map_set ip Null collected"
    by (auto simp: nsLookup_def Let_def split: if_splits dns_reply.splits)
  have g: "Map_get (Map_set ip Null collected) ip = Some Null"
    by (simp add: Map_get_def Map_set_def AList.update_conv')
  show ?thesis
    unfolding c using g by (simp add: nsLookup_def Let_def split: dns_reply.split)
qed

text \<open>
  Claim C3 says that after a failed lookup of an IP a later lookup of the same IP does not
  call \<open>dns.reverse\<close> again. The failed lookup stores \<open>null\<close> for the IP, and the later
  call reads \<open>null\<close>, takes the branch of an IP not yet looked up and calls \<open>dns.reverse\<close>.
\<close>

theorem C3_failed_lookup_is_repeated:
  "lk_promise (nsLookup [] (\<lambda>_. Reply_err) ''203.0.113.7'') = Rejected Null
   \<and> Map_get (lk_collected (nsLookup [] (\<lambda>_. Reply_err) ''203.0.113.7'')) ''203.0.113.7''
       = Some Null
   \<and> lk_reverse_called
        (nsLookup (lk_collected (nsLookup [] (\<lambda>_. Reply_err) ''203.0.113.7''))
           (\<lambda>_. Reply_err) ''203.0.113.7'')
       = True"
  by (simp add: nsLookup_def Map_get_def Map_set_def)

text \<open>
  Claim C10 says that the promise of \<open>nsLookup\<close> settles for every outcome of the callback
  on an uncached IP, also without an error and without a hostname list. In that last case
  neither branch of the callback runs and the promise stays pending.
\<close>

theorem C10_no_error_no_list_never_settles:
  "lk_promise (nsLookup [] (\<lambda>_. Reply_none) ''203.0.113.7'') = Pending"
  by (simp add: nsLookup_def Map_get_def)

text \<open>
  Claim C10 as amended, for every cache, resolver and IP. The promise of \<open>nsLookup\<close> stays
  pending exactly when \<open>dns.reverse\<close> is called and its callback gets neither an error nor
  a hostname list. It is rejected exactly when \<open>dns.reverse\<close> is called and the callback
  gets an error, and the reason is \<open>null\<close>. When \<open>dns.reverse\<close> is called it is
  fulfilled exactly when the callback gets a hostname list: with \<open>undefined\<close> for the
  empty list and with the first hostname otherwise. \<open>dns.reverse\<close> is called exactly when
  the cache holds nothing, \<open>undefined\<close> or \<open>null\<close> for the IP, so all of this holds on an
  uncached IP; otherwise the promise is fulfilled with the cached value.
\<close>

theorem C10_settles_unless_no_error_no_list:
  "((lk_promise (nsLookup collected reverse ip) = Pending)
      = (lk_reverse_called (nsLookup collected reverse ip) \<and> reverse ip = Reply_none))
   \<and> ((lk_promise (nsLookup collected reverse ip) = Rejected r)
      = (lk_reverse_called (nsLookup collected reverse ip) \<and> reverse ip = Reply_err \<and> r = Null))
   \<and> ((lk_promise (nsLookup collected reverse ip) = Fulfilled v)
      = (if lk_reverse_called (nsLookup collected reverse ip)
         then (reverse ip = Reply_hostnames [] \<and> v = Undefined)
              \<or> (\<exists>h hs. reverse ip = Reply_hostnames (h # hs) \<and> v = Str h)
         else Map_get collected ip = Some v))
   \<and> (lk_reverse_called (nsLookup collected reverse ip)
      = (Map_get collected ip = None \<or> Map_get collected ip = Some Undefined
         \<or> Map_get collected ip = Some Null))"
proof (intro conjI)
  show "(lk_promise (nsLookup collected reverse ip) = Pending)
      = (lk_reverse_called (nsLookup collected reverse ip) \<and> reverse ip = Reply_none)"
    by (simp add: nsLookup_def Let_def split: dns_reply.split)
  show "(lk_promise (nsLookup collected reverse ip) = Rejected r)
      = (lk_reverse_called (nsLookup collected reverse ip) \<and> reverse ip = Reply_err \<and> r = Null)"
    by (auto simp add: nsLookup_def Let_def split: dns_reply.split)
  show "(lk_promise (nsLookup collected reverse ip) = Fulfilled v)
      = (if lk_reverse_called (nsLookup collected reverse ip)
         then (reverse ip = Reply_hostnames [] \<and> v = Undefined)
              \<or> (\<exists>h hs. reverse ip = Reply_hostnames (h # hs) \<and> v = Str h)
         else Map_get collected ip = Some v)"
    by (cases "reverse ip"; cases "Map_get collected ip")
       (auto simp add: nsLookup_def Let_def split: list.splits)
  show "lk_reverse_called (nsLookup collected reverse ip)
      = (Map_get collected ip = None \<or> Map_get collected ip = Some Undefined
         \<or> Map_get collected ip = Some Null)"
    by (cases "reverse ip"; cases "Map_get collected ip")
       (auto simp add: nsLookup_def Let_def)
qed

section \<open>A failed lookup in \<open>gatherIPs\<close>\<close>

lemma Promise_all_Fulfilled:
  "Promise_all ps = Fulfilled vs \<Longrightarrow> p \<in> set ps \<Longrightarrow> \<exists>v. p = Fulfilled v"
proof (induction ps arbitrary: vs)
  case Nil then show ?case by simp
next
  case (Cons q qs)
  then show ?case
    by (cases q) (auto split: promise.splits)
qed

lemma gatherIPs_step_keys:
  "fst ` set (fst (gatherIPs_step d (ips, lookups) e)) = insert (e_ip e) (fst ` set ips)"
  by (simp add: gatherIPs_step_def Map_get_def Map_set_def Let_def AList.dom_update
        split: option.splits)

lemma gatherIPs_step_mono:
  "set lookups \<subseteq> set (snd (gatherIPs_step d (ips, lookups) e))"
  by (simp add: gatherIPs_step_def Let_def subset_insertI split: option.splits)

lemma gatherIPs_step_new:
  "fst ` set ips \<subseteq> set lookups \<Longrightarrow> e_ip e \<in> set (snd (gatherIPs_step True (ips, lookups) e))"
proof (cases "map_of ips (e_ip e)")
  case None
  then show ?thesis
    by (simp add: gatherIPs_step_def Map_get_def Let_def)
next
  case (Some p)
  assume sub: "fst ` set ips \<subseteq> set lookups"
  from Some have "e_ip e \<in> fst ` set ips"
    by (metis domI dom_map_of_conv_image_fst)
  with sub Some show ?thesis
    by (auto simp add: gatherIPs_step_def Map_get_def Let_def)
qed

lemma gatherIPs_fold_mono:
  "set lookups \<subseteq> set (snd (foldl (gatherIPs_step d) (ips, lookups) es))"
proof (induction es arbitrary: ips lookups)
  case Nil
  show ?case by simp
next
  case (Cons e es)
  obtain ips' lookups' where st: "gatherIPs_step d (ips, lookups) e = (ips', lookups')"
    by (cases "gatherIPs_step d (ips, lookups) e")
  have "set lookups \<subseteq> set lookups'"
    using gatherIPs_step_mono [of lookups d ips e] st by simp
  also have "set lookups' \<subseteq> set (snd (foldl (gatherIPs_step d) (ips', lookups') es))"
    by (rule Cons.IH)
  finally show ?case by (simp add: st)
qed

lemma gatherIPs_fold_lookups:
  "fst ` set ips \<subseteq> set lookups \<Longrightarrow>
     e_ip ` set es \<subseteq> set (snd (foldl (gatherIPs_step True) (ips, lookups) es))"
proof (induction es arbitrary: ips lookups)
  case Nil
  show ?case by simp
next
  case (Cons e es)
  obtain ips' lookups' where st: "gatherIPs_step True (ips, lookups) e = (ips', lookups')"
    by (cases "gatherIPs_step True (ips, lookups) e")
  have new: "e_ip e \<in> set lookups'"
    using gatherIPs_step_new [OF Cons.prems, of e] by (simp only: st snd_conv)
  have keys: "fst ` set ips' = insert (e_ip e) (fst ` set ips)"
    using gatherIPs_step_keys [of True ips lookups e] by (simp only: st fst_conv)
  have mono: "set lookups \<subseteq> set lookups'"
    using gatherIPs_step_mono [of lookups True ips e] by (simp only: st snd_conv)
  have inv: "fst ` set ips' \<subseteq> set lookups'"
    unfolding keys using Cons.prems new mono by (simp add: subset_iff)
  have 1: "e_ip e \<in> set (snd (foldl (gatherIPs_step True) (ips', lookups') es))"
    using new gatherIPs_fold_mono [of lookups' True ips' es] by (rule subsetD [rotated])
  have 2: "e_ip ` set es \<subseteq> set (snd (foldl (gatherIPs_step True) (ips', lookups') es))"
    using inv by (rule Cons.IH)
  have "foldl (gatherIPs_step True) (ips, lookups) (e # es)
          = foldl (gatherIPs_step True) (ips', lookups') es"
    by (simp only: foldl_Cons st)
  then show ?case
    using 1 2 by simp
qed

text \<open>
  With lookups turned on, one rejected lookup leaves the promise of \<open>gatherIPs\<close>, and with
  it the promise of \<open>LogFilter.filter\<close>, pending for ever.
\<close>

lemma gatherIPs_pending_on_failure:
  assumes "e \<in> set ruleErrors"
    and "lk_promise (nsLookup collected reverse (e_ip e)) = Rejected r"
  shows "gatherIPs collected reverse True ruleErrors = Pending"
proof -
  obtain ips lookups where st: "foldl (gatherIPs_step True) ([], []) ruleErrors = (ips, lookups)"
    by (cases "foldl (gatherIPs_step True) ([], []) ruleErrors")
  have "e_ip e \<in> set lookups"
    using gatherIPs_fold_lookups [of "[]" "[]" ruleErrors] assms(1) st by auto
  then have "Rejected r \<in> set (map (\<lambda>ip. lk_promise (nsLookup collected reverse ip)) lookups)"
    using assms(2) by force
  then have "Promise_all (map (\<lambda>ip. lk_promise (nsLookup collected reverse ip)) lookups) \<noteq> Fulfilled vs" for vs
    using Promise_all_Fulfilled by fastforce
  then show ?thesis
    by (simp add: gatherIPs_def st split: promise.split)
qed

lemma filter_pending_on_failure:
  assumes "e \<in> set ruleErrors"
    and "lk_promise (nsLookup collected reverse (e_ip e)) = Rejected r"
  shows "LogFilter_filter collected reverse normalLogs ruleErrors True = Pending"
  using gatherIPs_pending_on_failure [OF assms]
  by (simp add: LogFilter_filter_def Promise_then_def)

text \<open>
  Claim C2 says that a failed lookup of one IP is not fatal: \<open>LogFilter.filter\<close> and
  \<open>getReview\<close> still return a report. On one rule error whose IP fails to resolve,
  neither promise ever settles.
\<close>

theorem C2_failed_lookup_no_report:
  "LogFilter_filter [] (\<lambda>_. Reply_err) []
     [\<lparr>e_id = ''942100'', e_msg = ''SQL Injection'', e_hostname = ''example.com'',
         e_ip = ''1.1.1.1'', e_data = ''a OR 1=1'', e_date = ''Sun Mar 01 10:00:00 2020''\<rparr>] True = Pending
   \<and> getReview newDate [] (\<lambda>_. Reply_err) []
     [\<lparr>e_id = ''942100'', e_msg = ''SQL Injection'', e_hostname = ''example.com'',
         e_ip = ''1.1.1.1'', e_data = ''a OR 1=1'', e_date = ''Sun Mar 01 10:00:00 2020''\<rparr>] True = Pending"
  by (simp add: getReview_def LogFilter_filter_def gatherIPs_def gatherIPs_step_def
      Promise_then_def nsLookup_def Map_get_def Map_set_def)

section \<open>Sorting and the rows of the breakdown\<close>

lemma sorted_insert_sorted:
  assumes cmp: "\<And>x y. (comparefn x y < 0) = (key x < (key y :: nat))"
    and "sorted (map key ys)"
  shows "sorted (map key (insert_sorted comparefn x ys))"
  using assms(2)
proof (induction ys)
  case Nil
  show ?case by simp
next
  case (Cons y ys)
  have set_ins: "set (insert_sorted comparefn x zs) = insert x (set zs)" for zs
    by (induction zs) auto
  show ?case
  proof (cases "comparefn x y < 0")
    case True
    then have "key x < key y" by (simp add: cmp)
    with Cons.prems show ?thesis using True by auto
  next
    case False
    then have "key y \<le> key x" by (simp add: cmp)
    with Cons show ?thesis using False by (auto simp: set_ins)
  qed
qed

lemma filter_insert_sorted:
  assumes cmp: "\<And>x y. (comparefn x y < 0) = (key x < (key y :: nat))"
    and "sorted (map key ys)"
  shows "filter (\<lambda>y. key y = k) (insert_sorted comparefn x ys)
           = filter (\<lambda>y. key y = k) ys @ filter (\<lambda>y. key y = k) [x]"
  using assms(2)
proof (induction ys)
  case Nil
  show ?case by simp
next
  case (Cons y ys)
  show ?case
  proof (cases "comparefn x y < 0")
    case True
    then have lt: "key x < key y" by (simp add: cmp)
    show ?thesis
    proof (cases "key x = k")
      case True
      have "\<forall>z \<in> set (y # ys). key z \<noteq> k"
        using Cons.prems lt True by auto
      then have "filter (\<lambda>y. key y = k) (y # ys) = []"
        by (simp only: filter_empty_conv)
      then show ?thesis using \<open>comparefn x y < 0\<close> by simp
    next
      case False
      then show ?thesis using \<open>comparefn x y < 0\<close> by simp
    qed
  next
    case False
    then show ?thesis using Cons by simp
  qed
qed

lemma sorted_fold_insert:
  assumes cmp: "\<And>x y. (comparefn x y < 0) = (key x < (key y :: nat))"
  shows "sorted (map key acc) \<Longrightarrow>
    sorted (map key (foldl (\<lambda>sorted x. insert_sorted comparefn x sorted) acc xs))"
proof (induction xs arbitrary: acc)
  case Nil
  then show ?case by simp
next
  case (Cons x xs)
  have "sorted (map key (insert_sorted comparefn x acc))"
    using cmp Cons.prems by (rule sorted_insert_sorted)
  then show ?case using Cons.IH by simp
qed

lemma filter_fold_insert:
  assumes cmp: "\<And>x y. (comparefn x y < 0) = (key x < (key y :: nat))"
  shows "sorted (map key acc) \<Longrightarrow>
    filter (\<lambda>y. key y = k) (foldl (\<lambda>sorted x. insert_sorted comparefn x sorted) acc xs)
      = filter (\<lambda>y. key y = k) acc @ filter (\<lambda>y. key y = k) xs"
proof (induction xs arbitrary: acc)
  case Nil
  then show ?case by simp
next
  case (Cons x xs)
  have s: "sorted (map key (insert_sorted comparefn x acc))"
    using cmp Cons.prems by (rule sorted_insert_sorted)
  have "filter (\<lambda>y. key y = k) (insert_sorted comparefn x acc)
          = filter (\<lambda>y. key y = k) acc @ filter (\<lambda>y. key y = k) [x]"
    using cmp Cons.prems by (rule filter_insert_sorted)
  then show ?case using Cons.IH [OF s] by simp
qed

lemma length_insert_sorted: "length (insert_sorted comparefn x ys) = Suc (length ys)"
  by (induction ys) auto

lemma sorted_Array_sort:
  assumes "\<And>x y. (comparefn x y < 0) = (key x < (key y :: nat))"
  shows "sorted (map key (Array_sort comparefn xs))"
  unfolding Array_sort_def using assms by (rule sorted_fold_insert) simp

lemma stable_Array_sort:
  assumes "\<And>x y. (comparefn x y < 0) = (key x < (key y :: nat))"
  shows "filter (\<lambda>y. key y = k) (Array_sort comparefn xs) = filter (\<lambda>y. key y = k) xs"
  unfolding Array_sort_def using filter_fold_insert [of comparefn key "[]" k xs, OF assms] by simp

lemma enumerate_filter_below:
  "k \<le> k' \<Longrightarrow> filter (\<lambda>(i, x). i < k) (enumerate k' xs) = []"
  by (induction xs arbitrary: k') auto

lemma enumerate_filter_take:
  "map snd (filter (\<lambda>(i, x). i < k + n) (enumerate k xs)) = take n xs"
proof (induction xs arbitrary: k n)
  case Nil
  show ?case by simp
next
  case (Cons x xs)
  show ?case
  proof (cases n)
    case 0
    then show ?thesis using enumerate_filter_below [of k "Suc k" xs] by simp
  next
    case (Suc m)
    then show ?thesis using Cons.IH [of "Suc k" m] by simp
  qed
qed

lemma index_le_9_take: "index_le_9 xs = take 10 xs"
proof -
  have "(\<lambda>(i :: nat, x :: 'a). i \<le> 9) = (\<lambda>(i, x). i < 0 + 10)"
    by (auto simp: fun_eq_iff)
  then show ?thesis
    unfolding index_le_9_def using enumerate_filter_take [of 0 10 xs] by simp
qed

lemma ip_comparefn: "(int (ip_hits x) - int (ip_hits y) < 0) = (ip_hits x < ip_hits y)"
  by auto

lemma data_comparefn: "((if d_hits x < d_hits y then - 1 else (1::int)) < 0) = (d_hits x < d_hits y)"
  by auto

text \<open>
  Claim C7: in every rule group the rows of the IP list are non-increasing in hit count,
  the rows of the payload list are non-decreasing in hit count, and each list has at most
  10 rows.
\<close>

theorem C7_rows_ranked_and_capped:
  "sorted_wrt (\<lambda>a b. a \<ge> b) (map ip_hits (reviewIP_rows g))
   \<and> sorted_wrt (\<lambda>a b. a \<le> b) (map d_hits (reviewDataSent_rows g))
   \<and> length (reviewIP_rows g) \<le> 10
   \<and> length (reviewDataSent_rows g) \<le> 10"
proof -
  have "sorted (map ip_hits (Array_sort (\<lambda>x y. int (ip_hits x) - int (ip_hits y)) (Map_values (oe_ipList g))))"
    using ip_comparefn by (rule sorted_Array_sort)
  then have "sorted_wrt (\<lambda>a b. a \<ge> b) (map ip_hits (reviewIP_sorted g))"
    by (simp add: reviewIP_sorted_def rev_map [symmetric] sorted_wrt_rev)
  then have 1: "sorted_wrt (\<lambda>a b. a \<ge> b) (map ip_hits (reviewIP_rows g))"
    by (simp add: reviewIP_rows_def index_le_9_take take_map [symmetric] sorted_wrt_take)
  have "sorted (map d_hits (reviewDataSent_sorted g))"
    unfolding reviewDataSent_sorted_def using data_comparefn by (rule sorted_Array_sort)
  then have 2: "sorted_wrt (\<lambda>a b. a \<le> b) (map d_hits (reviewDataSent_rows g))"
    by (simp add: reviewDataSent_rows_def index_le_9_take take_map [symmetric] sorted_wrt_take)
  show ?thesis using 1 2
    by (simp add: reviewIP_rows_def reviewDataSent_rows_def index_le_9_take)
qed

section \<open>The entries of a rule group, in input order\<close>

lemma first_seen_snoc:
  "rev (remdups (rev (xs @ [x])))
     = (if x \<in> set (rev (remdups (rev xs))) then rev (remdups (rev xs))
        else rev (remdups (rev xs)) @ [x])"
  by simp

lemma collect_ip_keys:
  "map fst (oe_ipList (OrganizedError_collect g e))
     = (if e_ip e \<in> set (map fst (oe_ipList g)) then map fst (oe_ipList g)
        else map fst (oe_ipList g) @ [e_ip e])"
  by (simp add: OrganizedError_collect_def Let_def Map_set_def AList.update_keys
      split: option.split)

lemma collect_data_keys:
  "map fst (oe_dataUsed (OrganizedError_collect g e))
     = (if e_data e \<in> set (map fst (oe_dataUsed g)) then map fst (oe_dataUsed g)
        else map fst (oe_dataUsed g) @ [e_data e])"
  by (simp add: OrganizedError_collect_def Let_def Map_set_def AList.update_keys
      split: option.split)

lemma fold_collect_snoc:
  "foldl OrganizedError_collect g (es @ [e]) = OrganizedError_collect (foldl OrganizedError_collect g es) e"
  by simp

lemma fold_collect_ip_keys:
  "oe_ipList g = [] \<Longrightarrow>
     map fst (oe_ipList (foldl OrganizedError_collect g es)) = rev (remdups (rev (map e_ip es)))"
proof (induction es rule: rev_induct)
  case Nil
  then show ?case by simp
next
  case (snoc e es)
  then show ?case
    by (simp only: fold_collect_snoc collect_ip_keys map_append list.map first_seen_snoc)
qed

lemma fold_collect_data_keys:
  "oe_dataUsed g = [] \<Longrightarrow>
     map fst (oe_dataUsed (foldl OrganizedError_collect g es)) = rev (remdups (rev (map e_data es)))"
proof (induction es rule: rev_induct)
  case Nil
  then show ?case by simp
next
  case (snoc e es)
  then show ?case
    by (simp only: fold_collect_snoc collect_data_keys map_append list.map first_seen_snoc)
qed

lemma update_keeps_key_field:
  "f v = k \<Longrightarrow> \<forall>p \<in> set m. f (snd p) = fst p \<Longrightarrow>
     \<forall>p \<in> set (AList.update k v m). f (snd p) = fst p"
  by (induction m) auto

lemma collect_ip_field:
  assumes "\<forall>p \<in> set (oe_ipList g). ip_ip (snd p) = fst p"
  shows "\<forall>p \<in> set (oe_ipList (OrganizedError_collect g e)). ip_ip (snd p) = fst p"
proof (cases "map_of (oe_ipList g) (e_ip e)")
  case None
  have "ip_ip (IP_new e) = e_ip e" by (simp add: IP_new_def)
  then show ?thesis
    using None update_keeps_key_field [of ip_ip "IP_new e" "e_ip e" "oe_ipList g"] assms
    by (simp add: OrganizedError_collect_def Let_def Map_get_def Map_set_def)
next
  case (Some s)
  then have "(e_ip e, s) \<in> set (oe_ipList g)" by (rule map_of_SomeD)
  with assms have "ip_ip s = e_ip e" by force
  then have "ip_ip (IP_collect s e) = e_ip e" by (simp add: IP_collect_def)
  then show ?thesis
    using Some update_keeps_key_field [of ip_ip "IP_collect s e" "e_ip e" "oe_ipList g"] assms
    by (simp add: OrganizedError_collect_def Let_def Map_get_def Map_set_def)
qed

lemma collect_data_field:
  assumes "\<forall>p \<in> set (oe_dataUsed g). d_data (snd p) = fst p"
  shows "\<forall>p \<in> set (oe_dataUsed (OrganizedError_collect g e)). d_data (snd p) = fst p"
proof (cases "map_of (oe_dataUsed g) (e_data e)")
  case None
  have "d_data (Data_new e) = e_data e" by (simp add: Data_new_def)
  then show ?thesis
    using None update_keeps_key_field [of d_data "Data_new e" "e_data e" "oe_dataUsed g"] assms
    by (simp add: OrganizedError_collect_def Let_def Map_get_def Map_set_def)
next
  case (Some s)
  then have "(e_data e, s) \<in> set (oe_dataUsed g)" by (rule map_of_SomeD)
  with assms have "d_data s = e_data e" by force
  then have "d_data (Data_collect s e) = e_data e" by (simp add: Data_collect_def)
  then show ?thesis
    using Some update_keeps_key_field [of d_data "Data_collect s e" "e_data e" "oe_dataUsed g"] assms
    by (simp add: OrganizedError_collect_def Let_def Map_get_def Map_set_def)
qed

lemma fold_collect_ip_field:
  "\<forall>p \<in> set (oe_ipList g). ip_ip (snd p) = fst p \<Longrightarrow>
     \<forall>p \<in> set (oe_ipList (foldl OrganizedError_collect g es)). ip_ip (snd p) = fst p"
proof (induction es arbitrary: g)
  case Nil
  then show ?case by simp
next
  case (Cons e es)
  have "\<forall>p \<in> set (oe_ipList (OrganizedError_collect g e)). ip_ip (snd p) = fst p"
    using Cons.prems by (rule collect_ip_field)
  then show ?case using Cons.IH by simp
qed

lemma fold_collect_data_field:
  "\<forall>p \<in> set (oe_dataUsed g). d_data (snd p) = fst p \<Longrightarrow>
     \<forall>p \<in> set (oe_dataUsed (foldl OrganizedError_collect g es)). d_data (snd p) = fst p"
proof (induction es arbitrary: g)
  case Nil
  then show ?case by simp
next
  case (Cons e es)
  have "\<forall>p \<in> set (oe_dataUsed (OrganizedError_collect g e)). d_data (snd p) = fst p"
    using Cons.prems by (rule collect_data_field)
  then show ?case using Cons.IH by simp
qed

text \<open>The group of a rule id is the fold of collect over the records with that id.\<close>

lemma FPFilter_fold_group:
  "map_of (foldl FPFilter_step [] es) rid
     = (case filter (\<lambda>e. e_id e = rid) es of
          [] \<Rightarrow> None
        | x # rest \<Rightarrow>
            Some (foldl OrganizedError_collect
                    \<lparr>oe_msg = e_msg x, oe_id = e_id x, oe_hits = 1, oe_ipList = [],
                     oe_dataUsed = []\<rparr> (x # rest)))"
proof (induction es rule: rev_induct)
  case Nil
  show ?case by simp
next
  case (snoc e es)
  show ?case
  proof (cases "e_id e = rid")
    case False
    then show ?thesis
      using snoc
      by (simp add: FPFilter_step_def Map_get_def Map_set_def AList.update_conv'
          split: option.split)
  next
    case True
    show ?thesis
    proof (cases "filter (\<lambda>e. e_id e = rid) es")
      case Nil
      then show ?thesis
        using snoc True
        by (simp add: FPFilter_step_def Map_get_def Map_set_def AList.update_conv'
            OrganizedError_new_def)
    next
      case (Cons x rest)
      then show ?thesis
        using snoc True
        by (simp add: FPFilter_step_def Map_get_def Map_set_def AList.update_conv')
    qed
  qed
qed

lemma FPFilter_step_distinct:
  "distinct (map fst errs) \<Longrightarrow> distinct (map fst (FPFilter_step errs e))"
  by (simp add: FPFilter_step_def Map_set_def AList.distinct_update split: option.split)

lemma FPFilter_fold_distinct:
  "distinct (map fst errs) \<Longrightarrow> distinct (map fst (foldl FPFilter_step errs es))"
proof (induction es arbitrary: errs)
  case Nil
  then show ?case by simp
next
  case (Cons e es)
  have "distinct (map fst (FPFilter_step errs e))"
    using Cons.prems by (rule FPFilter_step_distinct)
  then show ?case using Cons.IH by simp
qed

lemma FPFilter_group:
  assumes "FPFilter_new ruleErrors = Inr f" and "(rid, g) \<in> set (fp_errors f)"
  shows "\<exists>x rest. filter (\<lambda>e. e_id e = rid) ruleErrors = x # rest
           \<and> g = foldl OrganizedError_collect
                   \<lparr>oe_msg = e_msg x, oe_id = e_id x, oe_hits = 1, oe_ipList = [],
                    oe_dataUsed = []\<rparr> (x # rest)"
proof -
  from assms(1) have errs: "fp_errors f = foldl FPFilter_step [] ruleErrors"
    by (auto simp: FPFilter_new_def split: list.splits)
  have "distinct (map fst (foldl FPFilter_step [] ruleErrors))"
    by (rule FPFilter_fold_distinct) simp
  with assms(2) errs have "map_of (foldl FPFilter_step [] ruleErrors) rid = Some g"
    by simp
  then show ?thesis
    by (simp add: FPFilter_fold_group split: list.splits)
qed

lemma rows_ties_ip:
  "prefix (filter (\<lambda>x. ip_hits x = h) (reviewIP_rows g))
     (rev (filter (\<lambda>x. ip_hits x = h) (Map_values (oe_ipList g))))"
proof -
  have "filter (\<lambda>x. ip_hits x = h) (reviewIP_sorted g)
          = rev (filter (\<lambda>x. ip_hits x = h) (Map_values (oe_ipList g)))"
    using stable_Array_sort [of "\<lambda>x y. int (ip_hits x) - int (ip_hits y)" ip_hits h, OF ip_comparefn]
    by (simp add: reviewIP_sorted_def rev_filter [symmetric])
  moreover have "prefix (filter (\<lambda>x. ip_hits x = h) (reviewIP_rows g))
      (filter (\<lambda>x. ip_hits x = h) (reviewIP_sorted g))"
    unfolding reviewIP_rows_def index_le_9_take by (rule filter_mono_prefix) (rule take_is_prefix)
  ultimately show ?thesis by simp
qed

lemma rows_ties_data:
  "prefix (filter (\<lambda>x. d_hits x = h) (reviewDataSent_rows g))
     (filter (\<lambda>x. d_hits x = h) (Map_values (oe_dataUsed g)))"
proof -
  have "filter (\<lambda>x. d_hits x = h) (reviewDataSent_sorted g)
          = filter (\<lambda>x. d_hits x = h) (Map_values (oe_dataUsed g))"
    unfolding reviewDataSent_sorted_def using data_comparefn by (rule stable_Array_sort)
  moreover have "prefix (filter (\<lambda>x. d_hits x = h) (reviewDataSent_rows g))
      (filter (\<lambda>x. d_hits x = h) (reviewDataSent_sorted g))"
    unfolding reviewDataSent_rows_def index_le_9_take by (rule filter_mono_prefix) (rule take_is_prefix)
  ultimately show ?thesis by simp
qed

lemma group_ip_order:
  assumes "FPFilter_new ruleErrors = Inr f" and "(rid, g) \<in> set (fp_errors f)"
  shows "map ip_ip (Map_values (oe_ipList g))
           = rev (remdups (rev (map e_ip (filter (\<lambda>e. e_id e = rid) ruleErrors))))"
proof -
  obtain x rest where m: "filter (\<lambda>e. e_id e = rid) ruleErrors = x # rest"
    and g: "g = foldl OrganizedError_collect
                   \<lparr>oe_msg = e_msg x, oe_id = e_id x, oe_hits = 1, oe_ipList = [],
                    oe_dataUsed = []\<rparr> (x # rest)"
    using FPFilter_group [OF assms] by blast
  have "\<forall>p \<in> set (oe_ipList g). ip_ip (snd p) = fst p"
    unfolding g by (rule fold_collect_ip_field) simp
  then have "map ip_ip (Map_values (oe_ipList g)) = map fst (oe_ipList g)"
    by (simp add: Map_values_def)
  also have "\<dots> = rev (remdups (rev (map e_ip (x # rest))))"
    unfolding g by (rule fold_collect_ip_keys) simp
  finally show ?thesis by (simp only: m)
qed

lemma group_data_order:
  assumes "FPFilter_new ruleErrors = Inr f" and "(rid, g) \<in> set (fp_errors f)"
  shows "map d_data (Map_values (oe_dataUsed g))
           = rev (remdups (rev (map e_data (filter (\<lambda>e. e_id e = rid) ruleErrors))))"
proof -
  obtain x rest where m: "filter (\<lambda>e. e_id e = rid) ruleErrors = x # rest"
    and g: "g = foldl OrganizedError_collect
                   \<lparr>oe_msg = e_msg x, oe_id = e_id x, oe_hits = 1, oe_ipList = [],
                    oe_dataUsed = []\<rparr> (x # rest)"
    using FPFilter_group [OF assms] by blast
  have "\<forall>p \<in> set (oe_dataUsed g). d_data (snd p) = fst p"
    unfolding g by (rule fold_collect_data_field) simp
  then have "map d_data (Map_values (oe_dataUsed g)) = map fst (oe_dataUsed g)"
    by (simp add: Map_values_def)
  also have "\<dots> = rev (remdups (rev (map e_data (x # rest))))"
    unfolding g by (rule fold_collect_data_keys) simp
  finally show ?thesis by (simp only: m)
qed

text \<open>
  Claim C6 says that among IPs with equal hit counts the IP that appeared first in the
  input is rendered first. On two records of one rule from the IPs 1.1.1.1 and 2.2.2.2, in
  this order, both IPs have one hit and the row of 2.2.2.2 comes first.
\<close>

theorem C6_later_ip_rendered_first:
  "map_sum name
     (\<lambda>f. map (\<lambda>g. map (\<lambda>x. (ip_ip x, ip_hits x)) (reviewIP_rows g)) (Map_values (fp_errors f)))
     (FPFilter_new
       [\<lparr>e_id = ''942100'', e_msg = ''SQL Injection'', e_hostname = ''example.com'',
         e_ip = ''1.1.1.1'', e_data = ''a OR 1=1'', e_date = ''Sun Mar 01 10:00:00 2020''\<rparr>,
        \<lparr>e_id = ''942100'', e_msg = ''SQL Injection'', e_hostname = ''example.com'',
         e_ip = ''2.2.2.2'', e_data = ''b OR 1=1'', e_date = ''Mon Mar 02 10:00:00 2020''\<rparr>])
   = Inr [[(''2.2.2.2'', 1), (''1.1.1.1'', 1)]]"
  by (simp add: FPFilter_new_def FPFilter_step_def OrganizedError_new_def
      OrganizedError_collect_def Map_get_def Map_set_def Map_values_def IP_new_def
      IP_collect_def Data_new_def Data_collect_def reviewIP_rows_def reviewIP_sorted_def
      index_le_9_take Array_sort_def)

text \<open>
  Claim C6 as amended. The entries of a rule group stand in the group's maps in the order
  in which their IP, or their payload, first appears among the input records of the rule
  (\<open>remdups\<close> keeps the last occurrence of an element, so on the reversed list it keeps
  the first). The IP rows with a given hit count are an initial part of the reversed map
  order: among IPs with equal hit counts the one that first appeared later is rendered
  first. The payload rows with a given hit count are an initial part of the map order:
  among payloads with equal hit counts the one that first appeared earlier is rendered
  first.
\<close>

theorem C6_ties_ip_reversed_payload_in_order:
  assumes "FPFilter_new ruleErrors = Inr f" and "(rid, g) \<in> set (fp_errors f)"
  shows "map ip_ip (Map_values (oe_ipList g))
           = rev (remdups (rev (map e_ip (filter (\<lambda>e. e_id e = rid) ruleErrors))))
    \<and> prefix (filter (\<lambda>x. ip_hits x = h) (reviewIP_rows g))
        (rev (filter (\<lambda>x. ip_hits x = h) (Map_values (oe_ipList g))))
    \<and> map d_data (Map_values (oe_dataUsed g))
           = rev (remdups (rev (map e_data (filter (\<lambda>e. e_id e = rid) ruleErrors))))
    \<and> prefix (filter (\<lambda>x. d_hits x = h') (reviewDataSent_rows g))
        (filter (\<lambda>x. d_hits x = h') (Map_values (oe_dataUsed g)))"
  using group_ip_order [OF assms] group_data_order [OF assms] rows_ties_ip [of h g]
    rows_ties_data [of h' g]
  by (intro conjI)

text \<open>
  The theorem of C6 at the two records above: both hypotheses hold, the IPs and the
  payloads stand in the maps in input order.
\<close>

theorem C6_ties_witness:
  "\<exists>f g.
     FPFilter_new
       [\<lparr>e_id = ''942100'', e_msg = ''SQL Injection'', e_hostname = ''example.com'',
         e_ip = ''1.1.1.1'', e_data = ''a OR 1=1'', e_date = ''Sun Mar 01 10:00:00 2020''\<rparr>,
        \<lparr>e_id = ''942100'', e_msg = ''SQL Injection'', e_hostname = ''example.com'',
         e_ip = ''2.2.2.2'', e_data = ''b OR 1=1'', e_date = ''Mon Mar 02 10:00:00 2020''\<rparr>]
       = Inr f
     \<and> (''942100'', g) \<in> set (fp_errors f)
     \<and> map ip_ip (Map_values (oe_ipList g)) = [''1.1.1.1'', ''2.2.2.2'']
     \<and> prefix (filter (\<lambda>x. ip_hits x = 1) (reviewIP_rows g))
          (rev (filter (\<lambda>x. ip_hits x = 1) (Map_values (oe_ipList g))))
     \<and> map d_data (Map_values (oe_dataUsed g)) = [''a OR 1=1'', ''b OR 1=1'']
     \<and> prefix (filter (\<lambda>x. d_hits x = 1) (reviewDataSent_rows g))
          (filter (\<lambda>x. d_hits x = 1) (Map_values (oe_dataUsed g)))"
proof -
  let ?input = "[\<lparr>e_id = ''942100'', e_msg = ''SQL Injection'', e_hostname = ''example.com'',
       e_ip = ''1.1.1.1'', e_data = ''a OR 1=1'', e_date = ''Sun Mar 01 10:00:00 2020''\<rparr>,
      \<lparr>e_id = ''942100'', e_msg = ''SQL Injection'', e_hostname = ''example.com'',
       e_ip = ''2.2.2.2'', e_data = ''b OR 1=1'', e_date = ''Mon Mar 02 10:00:00 2020''\<rparr>]"
  let ?g = "\<lparr>oe_msg = ''SQL Injection'', oe_id = ''942100'', oe_hits = 3,
              oe_ipList =
                [(''1.1.1.1'', \<lparr>ip_hits = 1, ip_dataUsed = [''a OR 1=1''], ip_ip = ''1.1.1.1''\<rparr>),
                 (''2.2.2.2'', \<lparr>ip_hits = 1, ip_dataUsed = [''b OR 1=1''], ip_ip = ''2.2.2.2''\<rparr>)],
              oe_dataUsed =
                [(''a OR 1=1'', \<lparr>d_ipList = [''1.1.1.1''], d_hits = 1,
                                  d_date = ''Sun Mar 01 10:00:00 2020'', d_data = ''a OR 1=1''\<rparr>),
                 (''b OR 1=1'', \<lparr>d_ipList = [''2.2.2.2''], d_hits = 1,
                                  d_date = ''Mon Mar 02 10:00:00 2020'', d_data = ''b OR 1=1''\<rparr>)]\<rparr>"
  let ?f = "\<lparr>fp_hostname = ''example.com'', fp_errors = [(''942100'', ?g)]\<rparr>"
  have h1: "FPFilter_new ?input = Inr ?f"
    by (simp add: FPFilter_new_def FPFilter_step_def OrganizedError_new_def
        OrganizedError_collect_def Map_get_def Map_set_def IP_new_def IP_collect_def
        Data_new_def Data_collect_def)
  have h2: "(''942100'', ?g) \<in> set (fp_errors ?f)"
    by simp
  have e1: "rev (remdups (rev (map e_ip (filter (\<lambda>e. e_id e = ''942100'') ?input))))
              = [''1.1.1.1'', ''2.2.2.2'']"
    by simp
  have e2: "rev (remdups (rev (map e_data (filter (\<lambda>e. e_id e = ''942100'') ?input))))
              = [''a OR 1=1'', ''b OR 1=1'']"
    by simp
  note t = C6_ties_ip_reversed_payload_in_order [OF h1 h2, of 1 1, unfolded e1 e2]
  show ?thesis
    by (rule exI [of _ ?f], rule exI [of _ ?g]) (rule conjI [OF h1 conjI [OF h2 t]])
qed

section \<open>The host named in the report headers\<close>

text \<open>
  Claim C9: on a non-empty list of rule errors the aggregation succeeds, and the header
  lines of the overview and of the breakdown name the hostname of the first record,
  whatever the later records hold.
\<close>

theorem C9_headers_name_first_hostname:
  "\<exists>f. FPFilter_new (first # rest) = Inr f
     \<and> fp_hostname f = e_hostname first
     \<and> prefix (''Reviewing ModSec logs for '' @ e_hostname first @ ''\<newline>'') (getOverview row f)
     \<and> prefix (''Reviewing detailed breakdown for '' @ e_hostname first @ ''\<newline>'')
         (FP_getBreakdown lookupCollection f)"
  by (simp add: FPFilter_new_def getOverview_def FP_getBreakdown_def)

section \<open>The time window of the rejected requests\<close>

lemma Date_le_Some: "Date_le a b \<Longrightarrow> \<exists>x y. a = Some x \<and> b = Some y \<and> x \<le> y"
  by (cases a; cases b) (simp_all add: Date_le_def)

lemma rules_loop_fold:
  "l_last (foldl (rules_loop_step newDate) st ms)
     = (if ms = [] then l_last st else newDate (e_date (last ms)))
   \<and> l_first (foldl (rules_loop_step newDate) st ms)
     = (if l_i st = 0 \<and> ms \<noteq> [] then newDate (e_date (hd ms)) else l_first st)
   \<and> l_top10Data (foldl (rules_loop_step newDate) st ms)
     = l_top10Data st @ take (10 - l_i st) ms
   \<and> l_i (foldl (rules_loop_step newDate) st ms) = l_i st + length ms"
proof (induction ms arbitrary: st)
  case Nil
  show ?case by simp
next
  case (Cons m ms)
  have step: "l_i (rules_loop_step newDate st m) = Suc (l_i st)"
    "l_last (rules_loop_step newDate st m) = newDate (e_date m)"
    "l_first (rules_loop_step newDate st m) = (if l_i st = 0 then newDate (e_date m) else l_first st)"
    "l_top10Data (rules_loop_step newDate st m)
       = (if l_i st \<le> 9 then l_top10Data st @ [m] else l_top10Data st)"
    by (simp_all add: rules_loop_step_def Let_def)
  have t: "(if l_i st \<le> 9 then l_top10Data st @ [m] else l_top10Data st) @ take (10 - Suc (l_i st)) ms
      = l_top10Data st @ take (10 - l_i st) (m # ms)"
    by (cases "l_i st \<le> 9") (simp_all add: take_Cons' Suc_diff_le)
  show ?case
    using Cons.IH [of "rules_loop_step newDate st m"] t
    by (simp add: step)
qed

lemma rejects_loop_rows:
  "rejects_loop newDate dfirst dlast rs = Inr rows \<Longrightarrow>
     rows = filter (\<lambda>r. \<exists>s. fixDate (n_date r) = Inr s
                          \<and> Date_le (newDate s) dlast \<and> Date_le dfirst (newDate s)) rs"
proof (induction rs arbitrary: rows)
  case Nil
  then show ?case by simp
next
  case (Cons r rs)
  then show ?case
    by (auto simp: Let_def split: sum.splits if_splits)
qed

text \<open>The rows under Rejected requests are exactly the rejected requests of the IP whose
  date lies in the window, both ends included.\<close>

lemma getBreakdown_rejects:
  assumes "getBreakdown newDate ip rid = Inr b"
  shows "b_rejects b
     = filter (\<lambda>r. \<exists>s. fixDate (n_date r) = Inr s
          \<and> filter (\<lambda>x. e_id x = rid) (p_brokenRules ip) \<noteq> []
          \<and> Date_le (newDate s) (newDate (e_date (last (filter (\<lambda>x. e_id x = rid) (p_brokenRules ip)))))
          \<and> Date_le (newDate (e_date (hd (filter (\<lambda>x. e_id x = rid) (p_brokenRules ip))))) (newDate s))
        (p_rejectedRequests ip)"
proof -
  let ?ms = "filter (\<lambda>x. e_id x = rid) (p_brokenRules ip)"
  let ?st = "foldl (rules_loop_step newDate)
               \<lparr>l_first = None, l_last = None, l_top10Data = [], l_i = 0\<rparr> ?ms"
  have f: "l_first ?st = (if ?ms = [] then None else newDate (e_date (hd ?ms)))"
    and l: "l_last ?st = (if ?ms = [] then None else newDate (e_date (last ?ms)))"
    using rules_loop_fold [of newDate "\<lparr>l_first = None, l_last = None, l_top10Data = [], l_i = 0\<rparr>" ?ms]
    by simp_all
  from assms have "rejects_loop newDate (l_first ?st) (l_last ?st) (p_rejectedRequests ip)
      = Inr (b_rejects b)"
    by (auto simp: getBreakdown_def Let_def split: sum.splits)
  then have "b_rejects b = filter (\<lambda>r. \<exists>s. fixDate (n_date r) = Inr s
                          \<and> Date_le (newDate s) (l_last ?st) \<and> Date_le (l_first ?st) (newDate s))
       (p_rejectedRequests ip)"
    by (rule rejects_loop_rows)
  also have "\<dots> = filter (\<lambda>r. \<exists>s. fixDate (n_date r) = Inr s
          \<and> ?ms \<noteq> []
          \<and> Date_le (newDate s) (newDate (e_date (last ?ms)))
          \<and> Date_le (newDate (e_date (hd ?ms))) (newDate s))
        (p_rejectedRequests ip)"
    by (rule filter_cong) (auto simp: f l Date_le_def split: option.splits)
  finally show ?thesis .
qed

lemma getBreakdown_top10:
  assumes "getBreakdown newDate ip rid = Inr b"
  shows "b_top10Data b = take 10 (filter (\<lambda>x. e_id x = rid) (p_brokenRules ip))"
  using assms rules_loop_fold [of newDate "\<lparr>l_first = None, l_last = None, l_top10Data = [], l_i = 0\<rparr>"
      "filter (\<lambda>x. e_id x = rid) (p_brokenRules ip)"]
  by (auto simp: getBreakdown_def Let_def split: sum.splits)

text \<open>Every breakdown of a fulfilled report is the breakdown of an IP of the filtered map
  for the rule id of its section.\<close>

lemma sequence_Inr: "sequence rs = Inr xs \<Longrightarrow> x \<in> set xs \<Longrightarrow> Inr x \<in> set rs"
proof (induction rs arbitrary: xs rule: sequence.induct)
  case 1
  then show ?case by simp
next
  case (2 e rs)
  then show ?case by simp
next
  case (3 y rs)
  then show ?case by (auto split: sum.splits)
qed

lemma getReview_breakdown:
  assumes "getReview newDate collected reverse normalLogs ruleErrors doNSLookup = Fulfilled sections"
    and "sec \<in> set sections" and "(header, b) \<in> set (s_ips sec)"
  shows "\<exists>filtered ruleID ruleError ip.
      LogFilter_filter collected reverse normalLogs ruleErrors doNSLookup = Fulfilled filtered
    \<and> (ruleID, ruleError) \<in> set filtered \<and> ip \<in> set (c_ips ruleError)
    \<and> header = getHeader ip \<and> getBreakdown newDate ip ruleID = Inr b"
proof -
  from assms(1) obtain filtered where
    f: "LogFilter_filter collected reverse normalLogs ruleErrors doNSLookup = Fulfilled filtered"
    and s: "sequence (map (review_rule newDate) filtered) = Inr sections"
    by (auto simp: getReview_def split: promise.splits sum.splits)
  from sequence_Inr [OF s assms(2)] obtain ruleID ruleError where
    m: "(ruleID, ruleError) \<in> set filtered" and r: "review_rule newDate (ruleID, ruleError) = Inr sec"
    by auto
  from r obtain rows where
    q: "sequence (map (review_ip newDate ruleID) (c_ips ruleError)) = Inr rows" and "s_ips sec = rows"
    by (auto simp: review_rule_def split: sum.splits)
  with assms(3) have "(header, b) \<in> set rows" by simp
  from sequence_Inr [OF q this] obtain ip where
    "ip \<in> set (c_ips ruleError)" "review_ip newDate ruleID ip = Inr (header, b)"
    by auto
  then have "ip \<in> set (c_ips ruleError) \<and> header = getHeader ip \<and> getBreakdown newDate ip ruleID = Inr b"
    by (auto simp: review_ip_def split: sum.splits)
  with f m show ?thesis by blast
qed

text \<open>
  Claim C8: for every IP and rule id, each request that \<open>getBreakdown\<close> lists under
  Rejected requests is a rejected request of the IP whose date, as \<open>fixDate\<close> and the
  engine read it, lies between the date of the first and the date of the last broken rule
  of the IP with that rule id, both ends included.
\<close>

theorem C8_rejects_within_window:
  assumes "getBreakdown newDate ip rid = Inr b" and "rejected \<in> set (b_rejects b)"
  shows "\<exists>s t tfirst tlast.
           rejected \<in> set (p_rejectedRequests ip)
         \<and> filter (\<lambda>x. e_id x = rid) (p_brokenRules ip) \<noteq> []
         \<and> newDate (e_date (hd (filter (\<lambda>x. e_id x = rid) (p_brokenRules ip)))) = Some tfirst
         \<and> newDate (e_date (last (filter (\<lambda>x. e_id x = rid) (p_brokenRules ip)))) = Some tlast
         \<and> fixDate (n_date rejected) = Inr s \<and> newDate s = Some t
         \<and> tfirst \<le> t \<and> t \<le> tlast"
proof -
  let ?ms = "filter (\<lambda>x. e_id x = rid) (p_brokenRules ip)"
  from assms(2) obtain s where r: "rejected \<in> set (p_rejectedRequests ip)"
    and s: "fixDate (n_date rejected) = Inr s" and ne: "?ms \<noteq> []"
    and le1: "Date_le (newDate s) (newDate (e_date (last ?ms)))"
    and le2: "Date_le (newDate (e_date (hd ?ms))) (newDate s)"
    unfolding getBreakdown_rejects [OF assms(1)] by auto
  from le1 obtain t tlast where "newDate s = Some t" "newDate (e_date (last ?ms)) = Some tlast" "t \<le> tlast"
    using Date_le_Some by blast
  moreover from le2 obtain tfirst t' where "newDate (e_date (hd ?ms)) = Some tfirst" "newDate s = Some t'" "tfirst \<le> t'"
    using Date_le_Some by blast
  ultimately show ?thesis using r s ne by auto
qed


text \<open>
  The theorem of C8 on an IP with two broken rules of rule 920100, at 10:00 and 11:00, and
  two rejected requests, at 10:30 and 12:00: the breakdown lists the request of 10:30 only.
\<close>

theorem C8_rejects_within_window_witness:
  "\<exists>b. getBreakdown
      (map_of
        [(''Thu Mar 12 10:00:00 2020'', 1584007200000),
         (''Mar/12/2020 10:30:00 '', 1584009000000),
         (''Thu Mar 12 11:00:00 2020'', 1584010800000),
         (''Mar/12/2020 12:00:00 '', 1584014400000)])
      \<lparr>p_brokenRules =
          [\<lparr>e_id = ''920100'', e_msg = ''Invalid HTTP Request Line'', e_hostname = ''example.com'',
            e_ip = ''2.2.2.2'', e_data = ''GET'', e_date = ''Thu Mar 12 10:00:00 2020''\<rparr>,
           \<lparr>e_id = ''920100'', e_msg = ''Invalid HTTP Request Line'', e_hostname = ''example.com'',
            e_ip = ''2.2.2.2'', e_data = ''GET'', e_date = ''Thu Mar 12 11:00:00 2020''\<rparr>],
        p_allActivities = [], p_ip = ''2.2.2.2'',
        p_rejectedRequests =
          [\<lparr>n_ip = ''2.2.2.2'', n_date = ''12/Mar/2020:10:30:00 +0000'', n_statusCode = ''403'',
            n_method = ''GET'', n_uri = ''/login'', n_useragent = ''curl''\<rparr>,
           \<lparr>n_ip = ''2.2.2.2'', n_date = ''12/Mar/2020:12:00:00 +0000'', n_statusCode = ''403'',
            n_method = ''GET'', n_uri = ''/admin'', n_useragent = ''curl''\<rparr>],
        p_useragent = ''curl'', p_nsLookup = ''no-lookup''\<rparr>
      ''920100'' = Inr b
    \<and> b_rejects b = [\<lparr>n_ip = ''2.2.2.2'', n_date = ''12/Mar/2020:10:30:00 +0000'', n_statusCode = ''403'',
            n_method = ''GET'', n_uri = ''/login'', n_useragent = ''curl''\<rparr>]
    \<and> (\<exists>s t tfirst tlast.
          fixDate ''12/Mar/2020:10:30:00 +0000'' = Inr s
        \<and> s = ''Mar/12/2020 10:30:00 '' \<and> t = (1584009000000::int)
        \<and> tfirst = 1584007200000 \<and> tlast = 1584010800000 \<and> tfirst \<le> t \<and> t \<le> tlast)"
proof -
  let ?newDate = "(map_of
        [(''Thu Mar 12 10:00:00 2020'', 1584007200000),
         (''Mar/12/2020 10:30:00 '', 1584009000000),
         (''Thu Mar 12 11:00:00 2020'', 1584010800000),
         (''Mar/12/2020 12:00:00 '', 1584014400000)])"
  let ?ip = "\<lparr>p_brokenRules =
          [\<lparr>e_id = ''920100'', e_msg = ''Invalid HTTP Request Line'', e_hostname = ''example.com'',
            e_ip = ''2.2.2.2'', e_data = ''GET'', e_date = ''Thu Mar 12 10:00:00 2020''\<rparr>,
           \<lparr>e_id = ''920100'', e_msg = ''Invalid HTTP Request Line'', e_hostname = ''example.com'',
            e_ip = ''2.2.2.2'', e_data = ''GET'', e_date = ''Thu Mar 12 11:00:00 2020''\<rparr>],
        p_allActivities = [], p_ip = ''2.2.2.2'',
        p_rejectedRequests =
          [\<lparr>n_ip = ''2.2.2.2'', n_date = ''12/Mar/2020:10:30:00 +0000'', n_statusCode = ''403'',
            n_method = ''GET'', n_uri = ''/login'', n_useragent = ''curl''\<rparr>,
           \<lparr>n_ip = ''2.2.2.2'', n_date = ''12/Mar/2020:12:00:00 +0000'', n_statusCode = ''403'',
            n_method = ''GET'', n_uri = ''/admin'', n_useragent = ''curl''\<rparr>],
        p_useragent = ''curl'', p_nsLookup = ''no-lookup''\<rparr>"
  let ?n1 = "\<lparr>n_ip = ''2.2.2.2'', n_date = ''12/Mar/2020:10:30:00 +0000'', n_statusCode = ''403'',
            n_method = ''GET'', n_uri = ''/login'', n_useragent = ''curl''\<rparr>"
  let ?b = "\<lparr>b_top10Data = p_brokenRules ?ip, b_rejects = [?n1]\<rparr>"
  have fd: "fixDate ''12/Mar/2020:10:30:00 +0000'' = Inr ''Mar/12/2020 10:30:00 ''"
    "fixDate ''12/Mar/2020:12:00:00 +0000'' = Inr ''Mar/12/2020 12:00:00 ''"
    by (simp_all add: fixDate_def)
  have h1: "getBreakdown ?newDate ?ip ''920100'' = Inr ?b"
    by (simp add: getBreakdown_def rules_loop_step_def fd Date_le_def Let_def)
  have h2: "?n1 \<in> set (b_rejects ?b)"
    by simp
  have c: "\<exists>s t tfirst tlast.
          fixDate ''12/Mar/2020:10:30:00 +0000'' = Inr s
        \<and> s = ''Mar/12/2020 10:30:00 '' \<and> t = (1584009000000::int)
        \<and> tfirst = 1584007200000 \<and> tlast = 1584010800000 \<and> tfirst \<le> t \<and> t \<le> tlast"
    using C8_rejects_within_window [OF h1 h2] by (simp add: fd)
  have r: "b_rejects ?b = [?n1]" by simp
  show ?thesis
    by (rule exI [of _ ?b]) (rule conjI [OF h1 conjI [OF r c]])
qed

end
